theory Spec2Isabelle
  imports Complex_Main
begin

section \<open>The \<open>/squareme\<close> handler of \<open>http_server.py\<close>\<close>

text \<open>
  The repository's test server has one route. Its handler reads the query parameter
  \<open>num\<close>, converts it with \<open>int(val, 10)\<close>, sleeps for a random time, draws a second
  random number that decides between an error body and the square, and returns the
  result of \<open>jsonify\<close>. The whole body sits in \<open>try ... except Exception\<close>; the
  \<open>except\<close> branch prints the exception and falls off the end of the function, so the
  handler returns Python's \<open>None\<close> there.

  The model below is a function of the request and of a \<open>world\<close>: the random source
  and the trace of effects (draws, sleeps, prints) in the order they happen. What the
  conversions between \<open>int\<close> and \<open>str\<close> consult in the interpreter (its limit on decimal
  digits, its tables of Unicode whitespace and decimal digits) is not in the source; it
  is the parameter \<open>ip\<close> of the model. The built-in and library functions the handler
  calls (\<open>int\<close>, \<open>random.randint\<close>, \<open>time.sleep\<close>, \<open>print\<close>, \<open>request.args.get\<close>,
  \<open>jsonify\<close>) are modelled as far as the handler uses them.
\<close>

subsection \<open>Values, exceptions, effects\<close>

text \<open>
  A Python \<open>str\<close> is a list of code points. \<open>pystr_of\<close> gives the \<open>str\<close> of a literal.
\<close>

type_synonym pystr = "nat list"

definition pystr_of :: "string \<Rightarrow> pystr" where
  "pystr_of s = map of_char s"

datatype py_exception =
    TypeError_non_string
  | ValueError_invalid_literal pystr
  | ValueError_exceeds_limit nat

datatype json_value = JInt int | JStr string

type_synonym json_object = "(string \<times> json_value) list"

record response =
  status :: nat
  mimetype :: string
  body :: json_object

datatype event =
    EvRandint int int int
  | EvSleep rat
  | EvPrint py_exception

record world =
  rng :: "nat \<Rightarrow> nat"
  pos :: nat
  trace :: "event list"

record request =
  args :: "(pystr \<times> pystr) list"

subsection \<open>The interpreter\<close>

text \<open>
  \<open>max_str_digits\<close> is the interpreter's limit on conversions between \<open>int\<close> and decimal
  \<open>str\<close>. \<open>unicode_spaces\<close> lists the whitespace code points above 127, and
  \<open>unicode_zeros\<close> the digit zero of every run of ten decimal digits above 127 (the
  decimal digits of Unicode come in runs of ten, zero to nine). \<open>python311\<close> is the
  interpreter at version 3.11 as it starts: the limit at 4300, the tables of Unicode 14.
\<close>

record interpreter =
  max_str_digits :: nat
  unicode_spaces :: "nat list"
  unicode_zeros :: "nat list"

definition python311 :: interpreter where
  "python311 =
     \<lparr>max_str_digits = 4300,
      unicode_spaces =
        [0x85, 0xA0, 0x1680, 0x2000, 0x2001, 0x2002, 0x2003, 0x2004, 0x2005, 0x2006,
         0x2007, 0x2008, 0x2009, 0x200A, 0x2028, 0x2029, 0x202F, 0x205F, 0x3000],
      unicode_zeros =
        [0x660, 0x6F0, 0x7C0, 0x966, 0x9E6, 0xA66, 0xAE6, 0xB66, 0xBE6, 0xC66, 0xCE6,
         0xD66, 0xDE6, 0xE50, 0xED0, 0xF20, 0x1040, 0x1090, 0x17E0, 0x1810, 0x1946,
         0x19D0, 0x1A80, 0x1A90, 0x1B50, 0x1BB0, 0x1C40, 0x1C50, 0xA620, 0xA8D0,
         0xA900, 0xA9D0, 0xA9F0, 0xAA50, 0xABF0, 0xFF10, 0x104A0, 0x10D30, 0x11066,
         0x110F0, 0x11136, 0x111D0, 0x112F0, 0x11450, 0x114D0, 0x11650, 0x116C0,
         0x11730, 0x118E0, 0x11950, 0x11C50, 0x11D50, 0x11DA0, 0x16A60, 0x16AC0,
         0x16B50, 0x1D7CE, 0x1D7D8, 0x1D7E2, 0x1D7EC, 0x1D7F6, 0x1E140, 0x1E2F0,
         0x1E950, 0x1FBF0]\<rparr>"

definition uni_isspace :: "interpreter \<Rightarrow> nat \<Rightarrow> bool" where
  "uni_isspace ip c = (c \<in> set (unicode_spaces ip))"

definition uni_todecimal :: "interpreter \<Rightarrow> nat \<Rightarrow> nat option" where
  "uni_todecimal ip c =
     map_option (\<lambda>z. c - z) (find (\<lambda>z. z \<le> c \<and> c < z + 10) (unicode_zeros ip))"

subsection \<open>\<open>request.args.get\<close>\<close>

text \<open>
  \<open>request.args\<close> is a multi-dictionary of the query string; its \<open>get\<close> method returns
  the first value stored under the key, or \<open>None\<close> when the key is absent.
\<close>

definition args_get :: "(pystr \<times> pystr) list \<Rightarrow> pystr \<Rightarrow> pystr option" where
  "args_get a k = map_of a k"

subsection \<open>\<open>int(val, 10)\<close>\<close>

text \<open>
  The conversion of a \<open>str\<close> has two steps. The first writes the \<open>str\<close> into a buffer of
  characters: a code point below 128 is taken as it is, a Unicode whitespace becomes a
  space, a Unicode decimal digit becomes its ASCII digit, and any other code point ends
  the buffer with a question mark.
\<close>

fun to_ascii :: "interpreter \<Rightarrow> pystr \<Rightarrow> string" where
  "to_ascii ip [] = []"
| "to_ascii ip (c # cs) =
     (if c < 128 then char_of c # to_ascii ip cs
      else if uni_isspace ip c then CHR '' '' # to_ascii ip cs
      else case uni_todecimal ip c of
             None \<Rightarrow> ''?''
           | Some v \<Rightarrow> char_of (48 + v) # to_ascii ip cs)"

text \<open>
  The second step reads the buffer: it skips leading whitespace, reads an optional sign,
  then a run of decimal digits in which single underscores may stand between digits,
  then skips trailing whitespace; anything left over is an error. The whitespace of the
  buffer is tab, line feed, vertical tab, form feed, carriage return and space.

  With \<open>max_str_digits\<close> at \<open>maxd > 0\<close>, a conversion of more than \<open>maxd\<close> digits raises
  \<open>ValueError\<close>. Conversions of at most 640 digits are never limited, and the
  interpreter admits only \<open>0\<close> (no limit) or a value of at least 640 as the setting;
  recent interpreters start with 4300, older ones have no limit.
\<close>

definition py_isspace :: "char \<Rightarrow> bool" where
  "py_isspace c = (c \<in> set [CHR 0x09, CHR 0x0A, CHR 0x0B, CHR 0x0C, CHR 0x0D, CHR 0x20])"

definition is_digit :: "char \<Rightarrow> bool" where
  "is_digit c = (c \<in> set ''0123456789'')"

definition digit_val :: "char \<Rightarrow> nat" where
  "digit_val c = of_char c - 48"

definition exceeds_limit :: "nat \<Rightarrow> nat \<Rightarrow> bool" where
  "exceeds_limit maxd digits = (640 < digits \<and> 0 < maxd \<and> maxd < digits)"

text \<open>
  The scan over digits and underscores: \<open>prev\<close> is the character read last, \<open>acc\<close> the
  value so far, \<open>digits\<close> the number of digits read. Two underscores in a row stop the
  scan with an error (\<open>None\<close>); any other character ends it.
\<close>

fun scan :: "char \<Rightarrow> nat \<Rightarrow> nat \<Rightarrow> string \<Rightarrow> (nat \<times> nat \<times> char \<times> string) option" where
  "scan prev acc digits [] = Some (acc, digits, prev, [])"
| "scan prev acc digits (c # cs) =
     (if c = CHR ''_'' then
        (if prev = CHR ''_'' then None else scan c acc digits cs)
      else if is_digit c then scan c (10 * acc + digit_val c) (Suc digits) cs
      else Some (acc, digits, prev, c # cs))"

definition read_sign :: "string \<Rightarrow> int \<times> string" where
  "read_sign s =
     (case s of
        [] \<Rightarrow> (1, [])
      | c # cs \<Rightarrow> if c = CHR ''+'' then (1, cs) else if c = CHR ''-'' then (- 1, cs) else (1, s))"

text \<open>\<open>u\<close> is the \<open>str\<close> being converted, which the error names; \<open>s\<close> is the buffer.\<close>

definition long_from_string :: "nat \<Rightarrow> pystr \<Rightarrow> string \<Rightarrow> py_exception + int" where
  "long_from_string maxd u s =
     (let (sign, buf) = read_sign (dropWhile py_isspace s) in
      if take 1 buf = ''_'' then Inl (ValueError_invalid_literal u)
      else
        case scan (CHR 0x00) 0 0 buf of
          None \<Rightarrow> Inl (ValueError_invalid_literal u)
        | Some (acc, digits, prev, rest) \<Rightarrow>
            if prev = CHR ''_'' then Inl (ValueError_invalid_literal u)
            else if exceeds_limit maxd digits then Inl (ValueError_exceeds_limit maxd)
            else if digits = 0 then Inl (ValueError_invalid_literal u)
            else if dropWhile py_isspace rest \<noteq> [] then Inl (ValueError_invalid_literal u)
            else Inr (sign * int acc))"

definition py_int :: "interpreter \<Rightarrow> pystr option \<Rightarrow> py_exception + int" where
  "py_int ip val =
     (case val of
        None \<Rightarrow> Inl TypeError_non_string
      | Some u \<Rightarrow> long_from_string (max_str_digits ip) u (to_ascii ip u))"

subsection \<open>\<open>random.randint\<close>, \<open>time.sleep\<close>, \<open>print\<close>\<close>

text \<open>
  The random source is a sequence of naturals read at \<open>pos\<close>. \<open>randint lo hi\<close> takes the
  next one and maps it into the closed interval from \<open>lo\<close> to \<open>hi\<close>; the handler calls it
  with \<open>lo \<le> hi\<close> only. Every value of the interval can be drawn (\<open>randint_onto\<close>
  below); how likely each one is, is not part of the model. \<open>sleep\<close> records its
  argument, the seconds to wait, as the exact quotient \<open>delay / 1000\<close>; the rounding of
  the floating-point division is left out. Every effect is appended to the trace.
\<close>

definition randint :: "int \<Rightarrow> int \<Rightarrow> world \<Rightarrow> int \<times> world" where
  "randint lo hi w =
     (let r = lo + int (rng w (pos w) mod nat (hi - lo + 1)) in
      (r, w\<lparr>pos := Suc (pos w), trace := trace w @ [EvRandint lo hi r]\<rparr>))"

definition sleep :: "rat \<Rightarrow> world \<Rightarrow> world" where
  "sleep secs w = w\<lparr>trace := trace w @ [EvSleep secs]\<rparr>"

definition print :: "py_exception \<Rightarrow> world \<Rightarrow> world" where
  "print e w = w\<lparr>trace := trace w @ [EvPrint e]\<rparr>"

subsection \<open>\<open>jsonify\<close>\<close>

text \<open>
  \<open>jsonify\<close> serialises the dictionary and wraps it in a response with status 200 and
  the JSON mimetype. Writing an integer in decimal is a conversion from \<open>int\<close> to \<open>str\<close>,
  so it is subject to the same digit limit and raises \<open>ValueError\<close> beyond it.
\<close>

fun ndigits :: "nat \<Rightarrow> nat" where
  "ndigits n = (if n < 10 then 1 else Suc (ndigits (n div 10)))"

declare ndigits.simps [simp del]

fun serialisable :: "nat \<Rightarrow> json_value \<Rightarrow> bool" where
  "serialisable maxd (JInt n) = (\<not> exceeds_limit maxd (ndigits (nat \<bar>n\<bar>)))"
| "serialisable maxd (JStr s) = True"

definition jsonify :: "nat \<Rightarrow> json_object \<Rightarrow> py_exception + response" where
  "jsonify maxd d =
     (if list_all (\<lambda>(k, v). serialisable maxd v) d
      then Inr \<lparr>status = 200, mimetype = ''application/json'', body = d\<rparr>
      else Inl (ValueError_exceeds_limit maxd))"

subsection \<open>The handler\<close>

definition TTL :: int where
  "TTL = 100"

text \<open>The body of the \<open>try\<close> block: the exception raised inside it, or the response.\<close>

definition get_try :: "interpreter \<Rightarrow> request \<Rightarrow> world \<Rightarrow> (py_exception + response) \<times> world" where
  "get_try ip req w =
     (let val = args_get (args req) (pystr_of ''num'') in
      case py_int ip val of
        Inl e \<Rightarrow> (Inl e, w)
      | Inr val \<Rightarrow>
          let (r, w1) = randint 50 200 w;
              delay = 50 + r;
              w2 = sleep (of_int delay / 1000) w1;
              (r', w3) = randint 0 10 w2
          in if r' = 0
             then (jsonify (max_str_digits ip) [(''error'', JStr ''something went wrong'')], w3)
             else (jsonify (max_str_digits ip)
                     [(''msg'', JInt (val * val)), (''ttl(ms)'', JInt (TTL + delay))], w3))"

text \<open>
  The handler: \<open>except Exception as e: print(e); pass\<close> leaves the function without a
  \<open>return\<close>, so the result is \<open>None\<close>.
\<close>

definition get :: "interpreter \<Rightarrow> request \<Rightarrow> world \<Rightarrow> response option \<times> world" where
  "get ip req w =
     (case get_try ip req w of
        (Inr resp, w') \<Rightarrow> (Some resp, w')
      | (Inl e, w') \<Rightarrow> (None, print e w'))"

subsection \<open>Observing a run\<close>

text \<open>
  The value the handler parsed from the request, and the events a run adds to the trace.
\<close>

abbreviation parsed :: "interpreter \<Rightarrow> request \<Rightarrow> py_exception + int" where
  "parsed ip req \<equiv> py_int ip (args_get (args req) (pystr_of ''num''))"

definition new_events :: "world \<Rightarrow> world \<Rightarrow> event list" where
  "new_events w w' = drop (length (trace w)) (trace w')"

text \<open>The values recorded by the \<open>randint\<close> events of a trace, in order.\<close>

fun draws :: "event list \<Rightarrow> int list" where
  "draws [] = []"
| "draws (EvRandint lo hi r # es) = r # draws es"
| "draws (EvSleep secs # es) = draws es"
| "draws (EvPrint e # es) = draws es"

subsection \<open>Integer literals\<close>

text \<open>
  The strings that \<open>int(val, 10)\<close> accepts, stated apart from the conversion. A code point
  counts as whitespace, or as a decimal digit with a value, as follows. \<open>cp_run\<close> is a run
  of digits and underscores (code point 95) in which every underscore stands between two
  digits; \<open>need\<close> says that a digit has to come next, as it does at the start and after an
  underscore. \<open>cp_values\<close> are the values of the digits of a string, and \<open>positional\<close> is
  the number that a list of digit values denotes, most significant first.
\<close>

definition cp_space :: "interpreter \<Rightarrow> nat \<Rightarrow> bool" where
  "cp_space ip c = (if c < 128 then c \<in> set [9, 10, 11, 12, 13, 32] else uni_isspace ip c)"

definition cp_digit :: "interpreter \<Rightarrow> nat \<Rightarrow> nat option" where
  "cp_digit ip c =
     (if c < 128 then (if 48 \<le> c \<and> c \<le> 57 then Some (c - 48) else None)
      else if uni_isspace ip c then None
      else uni_todecimal ip c)"

fun cp_run :: "interpreter \<Rightarrow> bool \<Rightarrow> pystr \<Rightarrow> bool" where
  "cp_run ip need [] = (\<not> need)"
| "cp_run ip need (c # cs) =
     (if c = 95 then \<not> need \<and> cp_run ip True cs
      else cp_digit ip c \<noteq> None \<and> cp_run ip False cs)"

definition cp_values :: "interpreter \<Rightarrow> pystr \<Rightarrow> nat list" where
  "cp_values ip b = List.map_filter (cp_digit ip) b"

fun positional :: "nat list \<Rightarrow> nat" where
  "positional [] = 0"
| "positional (v # vs) = v * 10 ^ length vs + positional vs"

text \<open>
  The literals of the specification: an optional sign (code point 43 or 45) followed by
  one or more of the digits 0 to 9, and the integer such a string denotes.
\<close>

definition ascii_digit :: "nat \<Rightarrow> bool" where
  "ascii_digit c = (48 \<le> c \<and> c \<le> 57)"

definition plain_literal :: "pystr \<Rightarrow> bool" where
  "plain_literal u =
     (case u of
        [] \<Rightarrow> False
      | c # cs \<Rightarrow>
          if c = 43 \<or> c = 45 then cs \<noteq> [] \<and> list_all ascii_digit cs
          else list_all ascii_digit u)"

definition plain_value :: "pystr \<Rightarrow> int" where
  "plain_value u =
     (case u of
        [] \<Rightarrow> 0
      | c # cs \<Rightarrow>
          if c = 45 then - int (positional (map (\<lambda>d. d - 48) cs))
          else if c = 43 then int (positional (map (\<lambda>d. d - 48) cs))
          else int (positional (map (\<lambda>d. d - 48) u)))"

text \<open>
  The same notions on the buffer, for the proofs: a run of digit characters and
  underscores, the value of a string of digit characters, the character that a code
  point becomes in the buffer, and the code points that do not end the buffer.
\<close>

fun digit_run :: "bool \<Rightarrow> string \<Rightarrow> bool" where
  "digit_run need [] = (\<not> need)"
| "digit_run need (c # cs) =
     (if c = CHR ''_'' then \<not> need \<and> digit_run True cs else is_digit c \<and> digit_run False cs)"

fun decimal :: "string \<Rightarrow> nat" where
  "decimal [] = 0"
| "decimal (c # cs) = digit_val c * 10 ^ length cs + decimal cs"

definition conv :: "interpreter \<Rightarrow> nat \<Rightarrow> char" where
  "conv ip c =
     (if c < 128 then char_of c
      else if uni_isspace ip c then CHR '' ''
      else case uni_todecimal ip c of None \<Rightarrow> CHR ''?'' | Some v \<Rightarrow> char_of (48 + v))"

definition readable :: "interpreter \<Rightarrow> nat \<Rightarrow> bool" where
  "readable ip c = (c < 128 \<or> uni_isspace ip c \<or> uni_todecimal ip c \<noteq> None)"

section \<open>Auxiliary facts\<close>

lemma randint_range:
  assumes "lo \<le> hi"
  shows "lo \<le> fst (randint lo hi w) \<and> fst (randint lo hi w) \<le> hi"
proof -
  let ?m = "nat (hi - lo + 1)"
  from assms have "0 < ?m" by simp
  then have "rng w (pos w) mod ?m < ?m" by (rule mod_less_divisor)
  then have "int (rng w (pos w) mod ?m) < int ?m" by (simp only: of_nat_less_iff)
  moreover from assms have "int ?m = hi - lo + 1" by simp
  ultimately have "int (rng w (pos w) mod ?m) \<le> hi - lo" by linarith
  then show ?thesis by (simp add: randint_def Let_def)
qed

lemma randint_onto:
  assumes "lo \<le> k" and "k \<le> hi"
  shows "fst (randint lo hi (w\<lparr>rng := \<lambda>i. nat (k - lo)\<rparr>)) = k"
proof -
  from assms have "nat (k - lo) < nat (hi - lo + 1)" by simp
  then have "nat (k - lo) mod nat (hi - lo + 1) = nat (k - lo)" by (rule mod_less)
  with assms show ?thesis by (simp add: randint_def Let_def)
qed

lemma ndigits_small: "n < 1000 \<Longrightarrow> ndigits n \<le> 3"
  by (simp add: ndigits.simps)

lemma serialisable_small: "\<bar>n\<bar> < 1000 \<Longrightarrow> serialisable maxd (JInt n)"
proof -
  assume "\<bar>n\<bar> < 1000"
  then have "nat \<bar>n\<bar> < 1000" by simp
  then have "ndigits (nat \<bar>n\<bar>) \<le> 3" by (rule ndigits_small)
  then have "\<not> 640 < ndigits (nat \<bar>n\<bar>)" by simp
  then show ?thesis by (simp add: exceeds_limit_def)
qed

lemma jsonify_error:
  "jsonify maxd [(''error'', JStr s)] =
     Inr \<lparr>status = 200, mimetype = ''application/json'', body = [(''error'', JStr s)]\<rparr>"
  by (simp add: jsonify_def)

lemma jsonify_success:
  assumes "\<bar>t\<bar> < 1000"
  shows "jsonify maxd [(''msg'', JInt m), (''ttl(ms)'', JInt t)] =
     (if serialisable maxd (JInt m)
      then Inr \<lparr>status = 200, mimetype = ''application/json'',
                 body = [(''msg'', JInt m), (''ttl(ms)'', JInt t)]\<rparr>
      else Inl (ValueError_exceeds_limit maxd))"
  using serialisable_small [OF assms, of maxd] by (simp add: jsonify_def)

lemma mod_151_bounds: "0 \<le> int (x mod 151) \<and> int (x mod 151) \<le> 150"
proof -
  have "x mod 151 < 151" by simp
  then show ?thesis by linarith
qed


lemma get_try_valid:
  assumes "parsed ip req = Inr n"
  shows "get_try ip req w =
     (if rng w (Suc (pos w)) mod 11 = 0
      then jsonify (max_str_digits ip) [(''error'', JStr ''something went wrong'')]
      else jsonify (max_str_digits ip)
             [(''msg'', JInt (n * n)),
              (''ttl(ms)'', JInt (TTL + (50 + (50 + int (rng w (pos w) mod 151)))))],
      w\<lparr>pos := Suc (Suc (pos w)),
        trace := trace w @
          [EvRandint 50 200 (50 + int (rng w (pos w) mod 151)),
           EvSleep (of_int (50 + (50 + int (rng w (pos w) mod 151))) / 1000),
           EvRandint 0 10 (int (rng w (Suc (pos w)) mod 11))]\<rparr>)"
  using assms by (simp add: get_try_def randint_def sleep_def Let_def)

lemma get_try_invalid: "parsed ip req = Inl e \<Longrightarrow> get_try ip req w = (Inl e, w)"
  by (simp add: get_try_def)

lemma get_valid:
  assumes "parsed ip req = Inr n"
  shows "get ip req w =
     (let r1 = 50 + int (rng w (pos w) mod 151);
          r2 = int (rng w (Suc (pos w)) mod 11);
          w3 = w\<lparr>pos := Suc (Suc (pos w)),
                 trace := trace w @
                   [EvRandint 50 200 r1, EvSleep (of_int (50 + r1) / 1000), EvRandint 0 10 r2]\<rparr>
      in if r2 = 0
         then (Some \<lparr>status = 200, mimetype = ''application/json'',
                      body = [(''error'', JStr ''something went wrong'')]\<rparr>, w3)
         else if serialisable (max_str_digits ip) (JInt (n * n))
         then (Some \<lparr>status = 200, mimetype = ''application/json'',
                      body = [(''msg'', JInt (n * n)), (''ttl(ms)'', JInt (TTL + (50 + r1)))]\<rparr>, w3)
         else (None, print (ValueError_exceeds_limit (max_str_digits ip)) w3))"
proof -
  have t: "\<bar>TTL + (50 + (50 + int (rng w (pos w) mod 151)))\<bar> < 1000"
    using mod_151_bounds [of "rng w (pos w)"] by (simp add: TTL_def)
  show ?thesis
    unfolding get_def get_try_valid [OF assms] jsonify_error jsonify_success [OF t] Let_def
    by simp
qed

lemma get_invalid: "parsed ip req = Inl e \<Longrightarrow> get ip req w = (None, print e w)"
  by (simp add: get_def get_try_invalid)

lemma new_events_append: "new_events w (w'\<lparr>trace := trace w @ es\<rparr>) = es"
  by (simp add: new_events_def)

lemma new_events_print: "new_events w (print e (w'\<lparr>trace := trace w @ es\<rparr>)) = es @ [EvPrint e]"
  by (simp add: new_events_def print_def)

lemma new_events_print0: "new_events w (print e w) = [EvPrint e]"
  by (simp add: new_events_def print_def)

lemma get_valid_events:
  assumes "parsed ip req = Inr n"
  shows "new_events w (snd (get ip req w)) =
     [EvRandint 50 200 (50 + int (rng w (pos w) mod 151)),
      EvSleep (of_int (50 + (50 + int (rng w (pos w) mod 151))) / 1000),
      EvRandint 0 10 (int (rng w (Suc (pos w)) mod 11))] @
     (case fst (get ip req w) of
        Some resp \<Rightarrow> []
      | None \<Rightarrow> [EvPrint (ValueError_exceeds_limit (max_str_digits ip))])"
  unfolding get_valid [OF assms] Let_def
  by (simp add: new_events_append new_events_print)

lemma get_valid_response:
  assumes "parsed ip req = Inr n"
  shows "fst (get ip req w) =
     (if rng w (Suc (pos w)) mod 11 = 0
      then Some \<lparr>status = 200, mimetype = ''application/json'',
                  body = [(''error'', JStr ''something went wrong'')]\<rparr>
      else if serialisable (max_str_digits ip) (JInt (n * n))
      then Some \<lparr>status = 200, mimetype = ''application/json'',
                  body = [(''msg'', JInt (n * n)),
                          (''ttl(ms)'', JInt (TTL + (50 + (50 + int (rng w (pos w) mod 151)))))]\<rparr>
      else None)"
  unfolding get_valid [OF assms] Let_def by simp





lemma space_not_digit:
  "py_isspace c \<Longrightarrow> \<not> is_digit c \<and> c \<noteq> CHR ''_'' \<and> c \<noteq> CHR ''+'' \<and> c \<noteq> CHR ''-''"
  by (auto simp: py_isspace_def is_digit_def)

lemma digit_not_special:
  "is_digit c \<Longrightarrow> c \<noteq> CHR ''_'' \<and> c \<noteq> CHR ''+'' \<and> c \<noteq> CHR ''-'' \<and> \<not> py_isspace c"
  by (auto simp: py_isspace_def is_digit_def)

lemma underscore_not_digit: "\<not> is_digit (CHR ''_'')"
  by (simp add: is_digit_def)

lemma scan_stop:
  assumes "t = [] \<or> (\<not> is_digit (hd t) \<and> hd t \<noteq> CHR ''_'')"
  shows "scan prev acc d t = Some (acc, d, prev, t)"
  using assms by (cases t) auto

lemma scan_digit_run:
  assumes "digit_run need b"
      and "need \<or> prev \<noteq> CHR ''_''"
      and "t = [] \<or> (\<not> is_digit (hd t) \<and> hd t \<noteq> CHR ''_'')"
  shows "scan prev acc d (b @ t) =
           Some (acc * 10 ^ length (filter is_digit b) + decimal (filter is_digit b),
                 d + length (filter is_digit b), last (prev # b), t)"
  using assms(1,2)
proof (induction b arbitrary: prev acc d need)
  case Nil
  then show ?case using scan_stop [OF assms(3)] by simp
next
  case (Cons c cs)
  show ?case
  proof (cases "c = CHR ''_''")
    case True
    with Cons.prems have "prev \<noteq> CHR ''_''" and run: "digit_run True cs" by auto
    from Cons.IH [OF run, of c acc d] True \<open>prev \<noteq> CHR ''_''\<close>
    show ?thesis by (simp add: underscore_not_digit)
  next
    case False
    with Cons.prems have dig: "is_digit c" and run: "digit_run False cs" by auto
    from Cons.IH [OF run, of c "10 * acc + digit_val c" "Suc d"] False dig
    show ?thesis by (simp add: algebra_simps)
  qed
qed

lemma digit_run_last:
  "digit_run need b \<Longrightarrow> need \<or> prev \<noteq> CHR ''_'' \<Longrightarrow> last (prev # b) \<noteq> CHR ''_''"
proof (induction b arbitrary: prev need)
  case Nil
  then show ?case by simp
next
  case (Cons c cs)
  show ?case
  proof (cases "c = CHR ''_''")
    case True
    with Cons.prems have "digit_run True cs" by auto
    from Cons.IH [OF this, of c] show ?thesis by simp
  next
    case False
    with Cons.prems have "digit_run False cs" by auto
    from Cons.IH [OF this, of c] False show ?thesis by simp
  qed
qed

lemma digit_run_True_Cons:
  "digit_run True b \<Longrightarrow> \<exists>c cs. b = c # cs \<and> is_digit c"
  by (cases b) (auto split: if_splits)

lemma scan_Some_digit_run:
  assumes "scan prev acc d str = Some (a, n, p, rest)" and "p \<noteq> CHR ''_''"
  shows "\<exists>b. str = b @ rest \<and> digit_run (prev = CHR ''_'') b
           \<and> (rest = [] \<or> (\<not> is_digit (hd rest) \<and> hd rest \<noteq> CHR ''_''))"
  using assms
proof (induction str arbitrary: prev acc d)
  case Nil
  then show ?case by simp
next
  case (Cons c cs)
  show ?case
  proof (cases "c = CHR ''_''")
    case True
    with Cons.prems(1) have np: "prev \<noteq> CHR ''_''" and sc: "scan c acc d cs = Some (a, n, p, rest)"
      by (auto split: if_splits)
    from Cons.IH [OF sc Cons.prems(2)] True obtain b where
      "cs = b @ rest" "digit_run True b"
      "rest = [] \<or> (\<not> is_digit (hd rest) \<and> hd rest \<noteq> CHR ''_'')"
      by auto
    with True np have "c # cs = (c # b) @ rest \<and> digit_run (prev = CHR ''_'') (c # b)
        \<and> (rest = [] \<or> (\<not> is_digit (hd rest) \<and> hd rest \<noteq> CHR ''_''))"
      by simp
    then show ?thesis by blast
  next
    case False
    show ?thesis
    proof (cases "is_digit c")
      case True
      with False Cons.prems(1) have sc:
        "scan c (10 * acc + digit_val c) (Suc d) cs = Some (a, n, p, rest)"
        by simp
      from Cons.IH [OF sc Cons.prems(2)] False obtain b where
        "cs = b @ rest" "digit_run False b"
        "rest = [] \<or> (\<not> is_digit (hd rest) \<and> hd rest \<noteq> CHR ''_'')"
        by auto
      with True False have "c # cs = (c # b) @ rest \<and> digit_run (prev = CHR ''_'') (c # b)
          \<and> (rest = [] \<or> (\<not> is_digit (hd rest) \<and> hd rest \<noteq> CHR ''_''))"
        by simp
      then show ?thesis by blast
    next
      case nd: False
      with False Cons.prems have "rest = c # cs" and "prev \<noteq> CHR ''_''"
        by auto
      with False nd have "c # cs = [] @ rest \<and> digit_run (prev = CHR ''_'') []
          \<and> (rest = [] \<or> (\<not> is_digit (hd rest) \<and> hd rest \<noteq> CHR ''_''))"
        by simp
      then show ?thesis by blast
    qed
  qed
qed

lemma dropWhile_space_prefix:
  "list_all py_isspace l \<Longrightarrow> \<not> py_isspace c \<Longrightarrow> dropWhile py_isspace (l @ c # r) = c # r"
  by (induction l) auto

lemma dropWhile_space_all: "list_all py_isspace t \<Longrightarrow> dropWhile py_isspace t = []"
  by (induction t) auto

lemma spaces_stop:
  "list_all py_isspace t \<Longrightarrow> t = [] \<or> (\<not> is_digit (hd t) \<and> hd t \<noteq> CHR ''_'')"
  using space_not_digit by (cases t) auto

lemma long_from_string_literal:
  assumes "list_all py_isspace l"
      and "sg = [] \<or> sg = ''+'' \<or> sg = ''-''"
      and "digit_run True b"
      and "list_all py_isspace t"
  shows "long_from_string maxd u (l @ sg @ b @ t) =
     (if exceeds_limit maxd (length (filter is_digit b))
      then Inl (ValueError_exceeds_limit maxd)
      else Inr ((if sg = ''-'' then - 1 else 1) * int (decimal (filter is_digit b))))"
proof -
  from digit_run_True_Cons [OF assms(3)] obtain c cs where b: "b = c # cs" and c: "is_digit c"
    by blast
  note nc = digit_not_special [OF c]
  have sc: "scan (CHR 0x00) 0 0 (b @ t) =
      Some (decimal (filter is_digit b), length (filter is_digit b), last (CHR 0x00 # b), t)"
    using scan_digit_run [OF assms(3) _ spaces_stop [OF assms(4)], of "CHR 0x00" 0 0] by simp
  have lst: "last (CHR 0x00 # b) \<noteq> CHR ''_''"
    using digit_run_last [OF assms(3), of "CHR 0x00"] by simp
  have k: "length (filter is_digit b) \<noteq> 0"
    using b c by simp
  have dw: "dropWhile py_isspace t = []"
    by (rule dropWhile_space_all [OF assms(4)])
  have sp: "\<not> py_isspace (CHR ''+'')" "\<not> py_isspace (CHR ''-'')"
    by (simp_all add: py_isspace_def)
  have d1: "dropWhile py_isspace (l @ sg @ b @ t) = sg @ b @ t"
    using assms(2)
  proof (elim disjE)
    assume "sg = []"
    with dropWhile_space_prefix [OF assms(1), of c "cs @ t"] b nc show ?thesis by simp
  next
    assume "sg = ''+''"
    with dropWhile_space_prefix [OF assms(1) sp(1), of "b @ t"] show ?thesis by simp
  next
    assume "sg = ''-''"
    with dropWhile_space_prefix [OF assms(1) sp(2), of "b @ t"] show ?thesis by simp
  qed
  have rs: "read_sign (sg @ b @ t) = ((if sg = ''-'' then - 1 else 1), b @ t)"
    using assms(2)
  proof (elim disjE)
    assume "sg = []"
    with b nc show ?thesis by (simp add: read_sign_def)
  next
    assume "sg = ''+''"
    then show ?thesis by (simp add: read_sign_def)
  next
    assume "sg = ''-''"
    then show ?thesis by (simp add: read_sign_def)
  qed
  have tk: "take 1 (b @ t) \<noteq> ''_''"
    using b nc by simp
  have "long_from_string maxd u (l @ sg @ b @ t) =
     (let (sign, buf) = ((if sg = ''-'' then - 1 else 1), b @ t) in
      if take 1 buf = ''_'' then Inl (ValueError_invalid_literal u)
      else
        case scan (CHR 0x00) 0 0 buf of
          None \<Rightarrow> Inl (ValueError_invalid_literal u)
        | Some (acc, digits, prev, rest) \<Rightarrow>
            if prev = CHR ''_'' then Inl (ValueError_invalid_literal u)
            else if exceeds_limit maxd digits then Inl (ValueError_exceeds_limit maxd)
            else if digits = 0 then Inl (ValueError_invalid_literal u)
            else if dropWhile py_isspace rest \<noteq> [] then Inl (ValueError_invalid_literal u)
            else Inr (sign * int acc))"
    unfolding long_from_string_def d1 rs ..
  also have "\<dots> = (if exceeds_limit maxd (length (filter is_digit b))
      then Inl (ValueError_exceeds_limit maxd)
      else Inr ((if sg = ''-'' then - 1 else 1) * int (decimal (filter is_digit b))))"
    unfolding Let_def prod.case sc option.case
    using tk lst k dw by (simp only: if_False if_True not_not refl not_True_eq_False)
  finally show ?thesis .
qed

lemma read_sign_split:
  "\<exists>sg. s = sg @ snd (read_sign s) \<and> (sg = [] \<or> sg = ''+'' \<or> sg = ''-'')
        \<and> fst (read_sign s) = (if sg = ''-'' then - 1 else 1)"
proof (cases s)
  case Nil
  then show ?thesis by (simp add: read_sign_def)
next
  case (Cons c cs)
  consider "c = CHR ''+''" | "c = CHR ''-''" | "c \<noteq> CHR ''+''" "c \<noteq> CHR ''-''"
    by blast
  then show ?thesis
  proof cases
    case 1
    with Cons have "s = ''+'' @ snd (read_sign s) \<and> fst (read_sign s) = 1"
      by (simp add: read_sign_def)
    then show ?thesis by (intro exI [of _ "''+''"]) simp
  next
    case 2
    with Cons have "s = ''-'' @ snd (read_sign s) \<and> fst (read_sign s) = - 1"
      by (simp add: read_sign_def)
    then show ?thesis by (intro exI [of _ "''-''"]) simp
  next
    case 3
    with Cons have "s = [] @ snd (read_sign s) \<and> fst (read_sign s) = 1"
      by (simp add: read_sign_def)
    then show ?thesis by (intro exI [of _ "[]"]) simp
  qed
qed

lemma long_from_string_Inr_parts:
  assumes "long_from_string maxd u s = Inr n"
  shows "\<exists>acc digits prev rest.
           take 1 (snd (read_sign (dropWhile py_isspace s))) \<noteq> ''_''
         \<and> scan (CHR 0x00) 0 0 (snd (read_sign (dropWhile py_isspace s))) = Some (acc, digits, prev, rest)
         \<and> prev \<noteq> CHR ''_''
         \<and> \<not> exceeds_limit maxd digits
         \<and> digits \<noteq> 0
         \<and> dropWhile py_isspace rest = []
         \<and> n = fst (read_sign (dropWhile py_isspace s)) * int acc"
proof -
  let ?str = "snd (read_sign (dropWhile py_isspace s))"
  let ?sign = "fst (read_sign (dropWhile py_isspace s))"
  have tk: "take 1 ?str \<noteq> ''_''"
    using assms by (auto simp: long_from_string_def split_beta)
  show ?thesis
  proof (cases "scan (CHR 0x00) 0 0 ?str")
    case None
    with assms tk show ?thesis
      by (simp add: long_from_string_def split_beta)
  next
    case (Some r)
    obtain acc digits prev rest where r: "r = (acc, digits, prev, rest)"
      by (cases r) auto
    from assms tk Some r have
      "prev \<noteq> CHR ''_'' \<and> \<not> exceeds_limit maxd digits \<and> digits \<noteq> 0
       \<and> dropWhile py_isspace rest = [] \<and> n = ?sign * int acc"
      by (simp add: long_from_string_def split_beta split: if_splits)
    with tk Some r show ?thesis by blast
  qed
qed

lemma long_from_string_Inr:
  assumes "long_from_string maxd u s = Inr n"
  shows "\<exists>l sg b t. s = l @ sg @ b @ t \<and> list_all py_isspace l
           \<and> (sg = [] \<or> sg = ''+'' \<or> sg = ''-'')
           \<and> digit_run True b \<and> list_all py_isspace t
           \<and> \<not> exceeds_limit maxd (length (filter is_digit b))
           \<and> n = (if sg = ''-'' then - 1 else 1) * int (decimal (filter is_digit b))"
proof -
  define l where "l = takeWhile py_isspace s"
  define s1 where "s1 = dropWhile py_isspace s"
  define str where "str = snd (read_sign s1)"
  have s: "s = l @ s1"
    by (simp add: l_def s1_def)
  have ll: "list_all py_isspace l"
    unfolding l_def list_all_iff by (auto dest: set_takeWhileD)
  from read_sign_split [of s1] obtain sg where
    sg1: "s1 = sg @ str" and sg2: "sg = [] \<or> sg = ''+'' \<or> sg = ''-''"
    and sg3: "fst (read_sign s1) = (if sg = ''-'' then - 1 else 1)"
    unfolding str_def by blast
  from long_from_string_Inr_parts [OF assms] obtain acc digits prev rest where
    tk: "take 1 str \<noteq> ''_''"
    and sc: "scan (CHR 0x00) 0 0 str = Some (acc, digits, prev, rest)"
    and pv: "prev \<noteq> CHR ''_''"
    and lm: "\<not> exceeds_limit maxd digits"
    and dz: "digits \<noteq> 0"
    and dw: "dropWhile py_isspace rest = []"
    and n: "n = fst (read_sign s1) * int acc"
    unfolding str_def s1_def by blast
  from scan_Some_digit_run [OF sc pv] obtain b where
    b: "str = b @ rest" and run: "digit_run False b"
    and stop: "rest = [] \<or> (\<not> is_digit (hd rest) \<and> hd rest \<noteq> CHR ''_'')"
    by auto
  have "scan (CHR 0x00) 0 0 (b @ rest) =
          Some (decimal (filter is_digit b), length (filter is_digit b), last (CHR 0x00 # b), rest)"
    using scan_digit_run [OF run _ stop, of "CHR 0x00" 0 0] by simp
  with sc b have acc: "acc = decimal (filter is_digit b)"
    and dg: "digits = length (filter is_digit b)"
    by simp_all
  from dz dg have "b \<noteq> []" by auto
  then obtain c cs where bc: "b = c # cs" by (cases b) auto
  with tk b have "c \<noteq> CHR ''_''" by simp
  with run bc have run': "digit_run True b" by simp
  have lt: "list_all py_isspace rest"
    using dw unfolding list_all_iff by (simp add: dropWhile_eq_Nil_conv)
  have dec: "s = l @ sg @ b @ rest"
    using s sg1 b by simp
  have lm': "\<not> exceeds_limit maxd (length (filter is_digit b))"
    using lm dg by simp
  have nv: "n = (if sg = ''-'' then - 1 else 1) * int (decimal (filter is_digit b))"
    using n sg3 acc by simp
  from dec ll sg2 run' lt lm' nv show ?thesis by blast
qed



lemma pystr_of_eq_iff: "pystr_of s = pystr_of t \<longleftrightarrow> s = t"
proof -
  have "inj (of_char :: char \<Rightarrow> nat)" by (rule inj_of_char)
  then show ?thesis by (simp add: pystr_of_def inj_map_eq_map)
qed

lemma to_ascii_pystr_of:
  "list_all (\<lambda>c. of_char c < (128::nat)) s \<Longrightarrow> to_ascii ip (pystr_of s) = s"
  by (induction s) (simp_all add: pystr_of_def)

lemma parsed_minus_three:
  "parsed ip \<lparr>args = [(pystr_of ''num'', pystr_of ''-3'')]\<rparr> = Inr (- 3)"
  by (simp add: args_get_def py_int_def to_ascii_pystr_of long_from_string_def read_sign_def
      py_isspace_def is_digit_def digit_val_def exceeds_limit_def)

lemma parsed_twelve:
  "parsed ip \<lparr>args = [(pystr_of ''x'', pystr_of ''1''), (pystr_of ''num'', pystr_of ''12''),
                        (pystr_of ''num'', pystr_of ''13'')]\<rparr> = Inr 12"
  by (simp add: args_get_def pystr_of_eq_iff py_int_def to_ascii_pystr_of long_from_string_def
      read_sign_def py_isspace_def is_digit_def digit_val_def exceeds_limit_def)

lemma parsed_abc:
  "parsed ip \<lparr>args = [(pystr_of ''num'', pystr_of ''abc'')]\<rparr>
     = Inl (ValueError_invalid_literal (pystr_of ''abc''))"
  by (simp add: args_get_def py_int_def to_ascii_pystr_of long_from_string_def read_sign_def
      py_isspace_def is_digit_def digit_val_def exceeds_limit_def)

lemma parsed_missing:
  "parsed ip \<lparr>args = [(pystr_of ''n'', pystr_of ''5'')]\<rparr> = Inl TypeError_non_string"
  by (simp add: args_get_def pystr_of_eq_iff py_int_def)

lemma char_eq_code: "ch = c \<longleftrightarrow> (of_char ch :: nat) = of_char c"
  by simp

lemma py_isspace_iff: "py_isspace ch \<longleftrightarrow> (of_char ch :: nat) \<in> {9, 10, 11, 12, 13, 32}"
  by (simp add: py_isspace_def char_eq_code [of ch] del: of_char_eq_iff)

lemma is_digit_iff: "is_digit ch \<longleftrightarrow> 48 \<le> (of_char ch :: nat) \<and> (of_char ch :: nat) \<le> 57"
proof -
  have "is_digit ch \<longleftrightarrow> (of_char ch :: nat) \<in> {48, 49, 50, 51, 52, 53, 54, 55, 56, 57}"
    by (simp add: is_digit_def char_eq_code [of ch] del: of_char_eq_iff)
  also have "\<dots> \<longleftrightarrow> 48 \<le> (of_char ch :: nat) \<and> (of_char ch :: nat) \<le> 57"
    by (simp only: insert_iff empty_iff) arith
  finally show ?thesis .
qed

lemma todecimal_less: "uni_todecimal ip c = Some v \<Longrightarrow> v < 10"
  by (auto simp: uni_todecimal_def find_Some_iff)

lemma code_conv:
  "(of_char (conv ip c) :: nat) =
     (if c < 128 then c
      else if uni_isspace ip c then 32
      else case uni_todecimal ip c of None \<Rightarrow> 63 | Some v \<Rightarrow> 48 + v)"
proof (cases "uni_todecimal ip c")
  case None
  then show ?thesis by (simp add: conv_def)
next
  case (Some v)
  from todecimal_less [OF Some] have "(48 + v) mod 256 = 48 + v" by simp
  with Some show ?thesis by (simp add: conv_def)
qed

lemma space_conv: "py_isspace (conv ip c) = cp_space ip c"
proof (cases "uni_todecimal ip c")
  case None
  then show ?thesis by (simp add: py_isspace_iff code_conv cp_space_def)
next
  case (Some v)
  then show ?thesis by (simp add: py_isspace_iff code_conv cp_space_def)
qed

lemma digit_conv: "is_digit (conv ip c) = (cp_digit ip c \<noteq> None)"
proof (cases "uni_todecimal ip c")
  case None
  then show ?thesis by (simp add: is_digit_iff code_conv cp_digit_def)
next
  case (Some v)
  with todecimal_less [OF Some] show ?thesis
    by (simp add: is_digit_iff code_conv cp_digit_def)
qed

lemma digit_val_conv: "cp_digit ip c = Some v \<Longrightarrow> digit_val (conv ip c) = v"
  by (auto simp: digit_val_def code_conv cp_digit_def split: if_splits)

lemma special_conv:
  "conv ip c = CHR ''_'' \<longleftrightarrow> c = 95"
  "conv ip c = CHR ''+'' \<longleftrightarrow> c = 43"
  "conv ip c = CHR ''-'' \<longleftrightarrow> c = 45"
proof -
  have "(of_char (conv ip c) :: nat) = 95 \<longleftrightarrow> c = 95"
    "(of_char (conv ip c) :: nat) = 43 \<longleftrightarrow> c = 43"
    "(of_char (conv ip c) :: nat) = 45 \<longleftrightarrow> c = 45"
    using todecimal_less [of ip c]
    by (auto simp: code_conv split: option.splits)
  then show "conv ip c = CHR ''_'' \<longleftrightarrow> c = 95" "conv ip c = CHR ''+'' \<longleftrightarrow> c = 43"
    "conv ip c = CHR ''-'' \<longleftrightarrow> c = 45"
    by (simp_all add: char_eq_code [of "conv ip c"] del: of_char_eq_iff)
qed

lemma to_ascii_map: "list_all (readable ip) u \<Longrightarrow> to_ascii ip u = map (conv ip) u"
  by (induction u) (auto simp: readable_def conv_def split: option.splits)

lemma to_ascii_unreadable:
  "\<not> list_all (readable ip) u \<Longrightarrow> CHR ''?'' \<in> set (to_ascii ip u)"
  by (induction u) (auto simp: readable_def split: option.splits)

lemma digit_run_chars:
  "digit_run need b \<Longrightarrow> c \<in> set b \<Longrightarrow> is_digit c \<or> c = CHR ''_''"
proof (induction b arbitrary: need)
  case Nil
  then show ?case by simp
next
  case (Cons x xs)
  then show ?case by (auto split: if_splits)
qed

lemma question_mark:
  "\<not> py_isspace (CHR ''?'')" "\<not> is_digit (CHR ''?'')"
  by (simp_all add: py_isspace_def is_digit_def)

lemma long_from_string_no_question_mark:
  assumes "long_from_string maxd u s = Inr n"
  shows "CHR ''?'' \<notin> set s"
proof
  assume q: "CHR ''?'' \<in> set s"
  from long_from_string_Inr [OF assms] obtain l sg b t where
    s: "s = l @ sg @ b @ t" and l: "list_all py_isspace l"
    and sg: "sg = [] \<or> sg = ''+'' \<or> sg = ''-''"
    and b: "digit_run True b" and t: "list_all py_isspace t"
    by blast
  from q s have "CHR ''?'' \<in> set l \<or> CHR ''?'' \<in> set sg \<or> CHR ''?'' \<in> set b \<or> CHR ''?'' \<in> set t"
    by auto
  then show False
  proof (elim disjE)
    assume "CHR ''?'' \<in> set l"
    with l question_mark(1) show False by (auto simp: list_all_iff)
  next
    assume "CHR ''?'' \<in> set sg"
    with sg show False by auto
  next
    assume "CHR ''?'' \<in> set b"
    from digit_run_chars [OF b this] question_mark(2) show False by simp
  next
    assume "CHR ''?'' \<in> set t"
    with t question_mark(1) show False by (auto simp: list_all_iff)
  qed
qed

lemma run_conv: "digit_run need (map (conv ip) b) = cp_run ip need b"
  by (induction b arbitrary: need) (simp_all add: special_conv digit_conv)

lemma spaces_conv: "list_all py_isspace (map (conv ip) l) = list_all (cp_space ip) l"
  by (induction l) (simp_all add: space_conv)

lemma count_conv: "length (filter is_digit (map (conv ip) b)) = length (cp_values ip b)"
proof (induction b)
  case Nil
  show ?case by (simp add: cp_values_def map_filter_simps)
next
  case (Cons c cs)
  then show ?case
    by (cases "cp_digit ip c") (simp_all add: cp_values_def map_filter_simps digit_conv)
qed

lemma value_conv: "decimal (filter is_digit (map (conv ip) b)) = positional (cp_values ip b)"
proof (induction b)
  case Nil
  show ?case by (simp add: cp_values_def map_filter_simps)
next
  case (Cons c cs)
  show ?case
  proof (cases "cp_digit ip c")
    case None
    with Cons show ?thesis
      by (simp add: cp_values_def map_filter_simps digit_conv)
  next
    case (Some v)
    with Cons count_conv [of ip cs] digit_val_conv [OF Some] show ?thesis
      by (simp add: cp_values_def map_filter_simps digit_conv)
  qed
qed

lemma sign_conv:
  "map (conv ip) sg = [] \<longleftrightarrow> sg = []"
  "map (conv ip) sg = ''+'' \<longleftrightarrow> sg = [43]"
  "map (conv ip) sg = ''-'' \<longleftrightarrow> sg = [45]"
  by (auto simp: map_eq_Cons_conv special_conv)

lemma space_readable: "cp_space ip c \<Longrightarrow> readable ip c"
  by (auto simp: cp_space_def readable_def split: if_splits)

lemma digit_readable: "cp_digit ip c \<noteq> None \<Longrightarrow> readable ip c"
  by (auto simp: cp_digit_def readable_def split: if_splits)

lemma spaces_readable: "list_all (cp_space ip) l \<Longrightarrow> list_all (readable ip) l"
  by (induction l) (simp_all add: space_readable)

lemma run_readable: "cp_run ip need b \<Longrightarrow> list_all (readable ip) b"
proof (induction b arbitrary: need)
  case Nil
  show ?case by simp
next
  case (Cons c cs)
  show ?case
  proof (cases "c = 95")
    case True
    with Cons.prems have "cp_run ip True cs" by simp
    from Cons.IH [OF this] True show ?thesis by (simp add: readable_def)
  next
    case False
    with Cons.prems have "cp_digit ip c \<noteq> None" and "cp_run ip False cs" by simp_all
    from Cons.IH [OF this(2)] digit_readable [OF this(1)] show ?thesis by simp
  qed
qed

lemma py_int_literal:
  assumes "list_all (cp_space ip) l"
      and "sg = [] \<or> sg = [43] \<or> sg = [45]"
      and "cp_run ip True b"
      and "list_all (cp_space ip) t"
  shows "py_int ip (Some (l @ sg @ b @ t)) =
     (if exceeds_limit (max_str_digits ip) (length (cp_values ip b))
      then Inl (ValueError_exceeds_limit (max_str_digits ip))
      else Inr ((if sg = [45] then - 1 else 1) * int (positional (cp_values ip b))))"
proof -
  let ?u = "l @ sg @ b @ t"
  have "list_all (readable ip) sg"
    using assms(2) by (auto simp: readable_def)
  with spaces_readable [OF assms(1)] run_readable [OF assms(3)] spaces_readable [OF assms(4)]
  have "list_all (readable ip) ?u" by simp
  then have a: "to_ascii ip ?u =
      map (conv ip) l @ map (conv ip) sg @ map (conv ip) b @ map (conv ip) t"
    by (simp add: to_ascii_map)
  have l': "list_all py_isspace (map (conv ip) l)"
    using assms(1) by (simp add: spaces_conv)
  have t': "list_all py_isspace (map (conv ip) t)"
    using assms(4) by (simp add: spaces_conv)
  have b': "digit_run True (map (conv ip) b)"
    using assms(3) by (simp add: run_conv)
  have sg': "map (conv ip) sg = [] \<or> map (conv ip) sg = ''+'' \<or> map (conv ip) sg = ''-''"
    using assms(2) by (simp add: sign_conv)
  have m: "(map (conv ip) sg = ''-'') = (sg = [45])"
    by (rule sign_conv)
  show ?thesis
    unfolding py_int_def option.case a
      long_from_string_literal [OF l' sg' b' t'] count_conv value_conv m ..
qed

lemma map_split: "map f u = x @ y \<Longrightarrow> \<exists>l r. u = l @ r \<and> map f l = x \<and> map f r = y"
  by (auto simp: map_eq_append_conv)

lemma py_int_Inr:
  assumes "py_int ip (Some u) = Inr n"
  shows "\<exists>l sg b t. u = l @ sg @ b @ t \<and> list_all (cp_space ip) l
           \<and> (sg = [] \<or> sg = [43] \<or> sg = [45])
           \<and> cp_run ip True b \<and> list_all (cp_space ip) t
           \<and> \<not> exceeds_limit (max_str_digits ip) (length (cp_values ip b))
           \<and> n = (if sg = [45] then - 1 else 1) * int (positional (cp_values ip b))"
proof -
  from assms have p: "long_from_string (max_str_digits ip) u (to_ascii ip u) = Inr n"
    by (simp add: py_int_def)
  from long_from_string_no_question_mark [OF p] to_ascii_unreadable [of ip u]
  have "list_all (readable ip) u" by blast
  then have a: "to_ascii ip u = map (conv ip) u" by (rule to_ascii_map)
  from long_from_string_Inr [OF p] obtain l' sg' b' t' where
    s: "to_ascii ip u = l' @ sg' @ b' @ t'" and l': "list_all py_isspace l'"
    and sg': "sg' = [] \<or> sg' = ''+'' \<or> sg' = ''-''"
    and b': "digit_run True b'" and t': "list_all py_isspace t'"
    and lm: "\<not> exceeds_limit (max_str_digits ip) (length (filter is_digit b'))"
    and n: "n = (if sg' = ''-'' then - 1 else 1) * int (decimal (filter is_digit b'))"
    by blast
  from s a have "map (conv ip) u = l' @ (sg' @ b' @ t')" by simp
  from map_split [OF this] obtain l r1 where u1: "u = l @ r1" and ml: "map (conv ip) l = l'"
    and m1: "map (conv ip) r1 = sg' @ (b' @ t')"
    by blast
  from map_split [OF m1] obtain sg r2 where u2: "r1 = sg @ r2" and msg: "map (conv ip) sg = sg'"
    and m2: "map (conv ip) r2 = b' @ t'"
    by blast
  from map_split [OF m2] obtain b t where u3: "r2 = b @ t" and mb: "map (conv ip) b = b'"
    and mt: "map (conv ip) t = t'"
    by blast
  have dec: "u = l @ sg @ b @ t"
    using u1 u2 u3 by simp
  have ls: "list_all (cp_space ip) l"
    using l' ml spaces_conv [of ip l] by simp
  have ts: "list_all (cp_space ip) t"
    using t' mt spaces_conv [of ip t] by simp
  have br: "cp_run ip True b"
    using b' mb run_conv [of True ip b] by simp
  have sgs: "sg = [] \<or> sg = [43] \<or> sg = [45]"
    using sg' msg sign_conv [of ip sg] by auto
  have sgm: "(sg' = ''-'') = (sg = [45])"
    using msg sign_conv(3) [of ip sg] by simp
  have lm': "\<not> exceeds_limit (max_str_digits ip) (length (cp_values ip b))"
    using lm mb count_conv [of ip b] by simp
  have nv: "n = (if sg = [45] then - 1 else 1) * int (positional (cp_values ip b))"
    using n mb value_conv [of ip b] sgm by simp
  from dec ls sgs br ts lm' nv show ?thesis by blast
qed

lemma ascii_digits_run:
  "list_all ascii_digit ds \<Longrightarrow> ds \<noteq> [] \<or> \<not> need \<Longrightarrow> cp_run ip need ds"
proof (induction ds arbitrary: need)
  case Nil
  then show ?case by simp
next
  case (Cons c cs)
  then have d: "ascii_digit c" and ds: "list_all ascii_digit cs" by simp_all
  from d have "c \<noteq> 95" and "cp_digit ip c \<noteq> None"
    by (simp_all add: ascii_digit_def cp_digit_def)
  with Cons.IH [OF ds, of False] show ?case by simp
qed

lemma ascii_digits_values:
  "list_all ascii_digit ds \<Longrightarrow> cp_values ip ds = map (\<lambda>d. d - 48) ds"
  by (induction ds) (simp_all add: cp_values_def map_filter_simps ascii_digit_def cp_digit_def)

lemma ascii_digits_filter: "list_all ascii_digit ds \<Longrightarrow> filter ascii_digit ds = ds"
  by (induction ds) auto

lemma py_int_plain:
  assumes "plain_literal u"
  shows "py_int ip (Some u) =
     (if exceeds_limit (max_str_digits ip) (length (filter ascii_digit u))
      then Inl (ValueError_exceeds_limit (max_str_digits ip))
      else Inr (plain_value u))"
proof -
  from assms obtain c cs where u: "u = c # cs"
    by (cases u) (auto simp: plain_literal_def)
  consider (plus) "c = 43" | (minus) "c = 45" | (digit) "c \<noteq> 43" "c \<noteq> 45"
    by blast
  then show ?thesis
  proof cases
    case plus
    with assms u have d: "list_all ascii_digit cs" "cs \<noteq> []"
      by (simp_all add: plain_literal_def)
    from py_int_literal [of ip "[]" "[43]" cs "[]"] ascii_digits_run [OF d(1), of True ip] d(2)
    have "py_int ip (Some (43 # cs)) =
        (if exceeds_limit (max_str_digits ip) (length (cp_values ip cs))
         then Inl (ValueError_exceeds_limit (max_str_digits ip))
         else Inr (int (positional (cp_values ip cs))))"
      by simp
    with plus u show ?thesis
      by (simp add: plain_value_def ascii_digit_def ascii_digits_values [OF d(1)]
          ascii_digits_filter [OF d(1)])
  next
    case minus
    with assms u have d: "list_all ascii_digit cs" "cs \<noteq> []"
      by (simp_all add: plain_literal_def)
    from py_int_literal [of ip "[]" "[45]" cs "[]"] ascii_digits_run [OF d(1), of True ip] d(2)
    have "py_int ip (Some (45 # cs)) =
        (if exceeds_limit (max_str_digits ip) (length (cp_values ip cs))
         then Inl (ValueError_exceeds_limit (max_str_digits ip))
         else Inr (- int (positional (cp_values ip cs))))"
      by simp
    with minus u show ?thesis
      by (simp add: plain_value_def ascii_digit_def ascii_digits_values [OF d(1)]
          ascii_digits_filter [OF d(1)])
  next
    case digit
    with assms u have d: "list_all ascii_digit u" "u \<noteq> []"
      by (simp_all add: plain_literal_def)
    from py_int_literal [of ip "[]" "[]" u "[]"] ascii_digits_run [OF d(1), of True ip] d(2)
    have lfs: "py_int ip (Some u) =
        (if exceeds_limit (max_str_digits ip) (length (cp_values ip u))
         then Inl (ValueError_exceeds_limit (max_str_digits ip))
         else Inr (int (positional (cp_values ip u))))"
      by simp
    have f: "filter ascii_digit u = u"
      by (rule ascii_digits_filter [OF d(1)])
    have v: "cp_values ip u = map (\<lambda>d. d - 48) u"
      by (rule ascii_digits_values [OF d(1)])
    have pv: "plain_value u = int (positional (map (\<lambda>d. d - 48) u))"
      using digit u by (simp add: plain_value_def)
    show ?thesis
      by (simp only: lfs pv f v length_map)
  qed
qed


lemma pystr_of_signs: "pystr_of ''+'' = [43]" "pystr_of ''-'' = [45]"
  by (simp_all add: pystr_of_def)




section \<open>Properties of the handler\<close>

text \<open>
  Claim C1. For every request whose \<open>num\<close> parses to an integer \<open>n\<close> (negative, zero or
  of any magnitude), a response of the handler that is not the error payload carries
  \<open>n * n\<close> in its \<open>msg\<close> field.
\<close>

theorem msg_is_square:
  assumes "parsed ip req = Inr n"
      and "fst (get ip req w) = Some resp"
      and "body resp \<noteq> [(''error'', JStr ''something went wrong'')]"
  shows "map_of (body resp) ''msg'' = Some (JInt (n * n))"
  using assms(2,3) unfolding get_valid [OF assms(1)] Let_def
  by (auto split: if_splits)

theorem msg_is_square_witness:
  "parsed python311 \<lparr>args = [(pystr_of ''num'', pystr_of ''-3'')]\<rparr> = Inr (- 3)
   \<and> fst (get python311 \<lparr>args = [(pystr_of ''num'', pystr_of ''-3'')]\<rparr> \<lparr>rng = (\<lambda>i. 7), pos = 0, trace = []\<rparr>)
       = Some \<lparr>status = 200, mimetype = ''application/json'',
                body = [(''msg'', JInt 9), (''ttl(ms)'', JInt 207)]\<rparr>
   \<and> map_of [(''msg'', JInt 9), (''ttl(ms)'', JInt 207)] ''msg'' = Some (JInt (- 3 * - 3))"
proof -
  let ?req = "\<lparr>args = [(pystr_of ''num'', pystr_of ''-3'')]\<rparr>"
  let ?w = "\<lparr>rng = (\<lambda>i. 7), pos = 0, trace = []\<rparr>"
  let ?resp = "\<lparr>status = 200, mimetype = ''application/json'',
                body = [(''msg'', JInt 9), (''ttl(ms)'', JInt 207)]\<rparr>"
  have p: "parsed python311 ?req = Inr (- 3)"
    by (rule parsed_minus_three)
  have g: "fst (get python311 ?req ?w) = Some ?resp"
    unfolding get_valid [OF p] by (simp add: TTL_def exceeds_limit_def ndigits.simps)
  have b: "body ?resp \<noteq> [(''error'', JStr ''something went wrong'')]"
    by simp
  from msg_is_square [OF p g b] p g show ?thesis by simp
qed






text \<open>
  Claim C4. When the conversion of \<open>num\<close> raises (the parameter is missing, or is not an
  integer literal), the exception is caught: the handler returns normally, with \<open>None\<close>
  in place of a response, and the only thing it has done is to print the exception.
\<close>

theorem parse_failure_returns_none:
  assumes "parsed ip req = Inl e"
  shows "get ip req w = (None, print e w) \<and> new_events w (snd (get ip req w)) = [EvPrint e]"
  by (simp add: get_invalid [OF assms] new_events_print0)

theorem parse_failure_returns_none_witness:
  "parsed python311 \<lparr>args = [(pystr_of ''num'', pystr_of ''abc'')]\<rparr>
     = Inl (ValueError_invalid_literal (pystr_of ''abc''))
   \<and> get python311 \<lparr>args = [(pystr_of ''num'', pystr_of ''abc'')]\<rparr> \<lparr>rng = (\<lambda>i. 7), pos = 0, trace = []\<rparr>
     = (None, \<lparr>rng = (\<lambda>i. 7), pos = 0,
               trace = [EvPrint (ValueError_invalid_literal (pystr_of ''abc''))]\<rparr>)
   \<and> parsed python311 \<lparr>args = [(pystr_of ''n'', pystr_of ''5'')]\<rparr>
     = Inl TypeError_non_string
   \<and> get python311 \<lparr>args = [(pystr_of ''n'', pystr_of ''5'')]\<rparr> \<lparr>rng = (\<lambda>i. 7), pos = 0, trace = []\<rparr>
     = (None, \<lparr>rng = (\<lambda>i. 7), pos = 0,
               trace = [EvPrint TypeError_non_string]\<rparr>)"
proof -
  let ?w = "\<lparr>rng = (\<lambda>i. 7), pos = 0, trace = []\<rparr>"
  have p1: "parsed python311 \<lparr>args = [(pystr_of ''num'', pystr_of ''abc'')]\<rparr> = Inl (ValueError_invalid_literal (pystr_of ''abc''))"
    by (rule parsed_abc)
  have p2: "parsed python311 \<lparr>args = [(pystr_of ''n'', pystr_of ''5'')]\<rparr> = Inl TypeError_non_string"
    by (rule parsed_missing)
  from parse_failure_returns_none [OF p1] parse_failure_returns_none [OF p2] p1 p2
  show ?thesis by (simp add: print_def)
qed






text \<open>
  Claim C7. The parse step succeeds exactly on the strings made of optional whitespace, an
  optional sign, a run of decimal digits in which single underscores may separate digits,
  and optional whitespace, whose number of digits is within the interpreter's limit; the
  whitespace and the decimal digits are those of Unicode, and the result is the signed
  decimal value of the digits. In particular every string that is an optional sign
  followed by digits 0 to 9, within the limit, parses to the integer it denotes. When the
  parse does not succeed the handler returns \<open>None\<close>.
\<close>

theorem parse_step_grammar:
  assumes "args_get (args req) (pystr_of ''num'') = Some u"
  shows "(parsed ip req = Inr n \<longleftrightarrow>
            (\<exists>l sg b t. u = l @ sg @ b @ t \<and> list_all (cp_space ip) l
               \<and> (sg = [] \<or> sg = pystr_of ''+'' \<or> sg = pystr_of ''-'')
               \<and> cp_run ip True b \<and> list_all (cp_space ip) t
               \<and> \<not> exceeds_limit (max_str_digits ip) (length (cp_values ip b))
               \<and> n = (if sg = pystr_of ''-'' then - 1 else 1) * int (positional (cp_values ip b))))
       \<and> (plain_literal u \<and> \<not> exceeds_limit (max_str_digits ip) (length (filter ascii_digit u))
            \<longrightarrow> parsed ip req = Inr (plain_value u))
       \<and> ((\<forall>m. parsed ip req \<noteq> Inr m) \<longrightarrow> fst (get ip req w) = None)"
proof -
  have p: "parsed ip req = py_int ip (Some u)"
    by (simp add: assms)
  have "parsed ip req = Inr n \<longleftrightarrow>
            (\<exists>l sg b t. u = l @ sg @ b @ t \<and> list_all (cp_space ip) l
               \<and> (sg = [] \<or> sg = pystr_of ''+'' \<or> sg = pystr_of ''-'')
               \<and> cp_run ip True b \<and> list_all (cp_space ip) t
               \<and> \<not> exceeds_limit (max_str_digits ip) (length (cp_values ip b))
               \<and> n = (if sg = pystr_of ''-'' then - 1 else 1) * int (positional (cp_values ip b)))"
    (is "?lhs \<longleftrightarrow> ?rhs")
  proof
    assume ?lhs
    with p have "py_int ip (Some u) = Inr n" by simp
    from py_int_Inr [OF this] show ?rhs by (simp only: pystr_of_signs)
  next
    assume ?rhs
    then obtain l sg b t where
      u: "u = l @ sg @ b @ t" and l: "list_all (cp_space ip) l"
      and sg: "sg = [] \<or> sg = [43] \<or> sg = [45]"
      and b: "cp_run ip True b" and t: "list_all (cp_space ip) t"
      and lm: "\<not> exceeds_limit (max_str_digits ip) (length (cp_values ip b))"
      and n: "n = (if sg = [45] then - 1 else 1) * int (positional (cp_values ip b))"
      unfolding pystr_of_signs by blast
    from py_int_literal [OF l sg b t] lm n u p
    show ?lhs by simp
  qed
  moreover have "plain_literal u \<and> \<not> exceeds_limit (max_str_digits ip) (length (filter ascii_digit u))
            \<longrightarrow> parsed ip req = Inr (plain_value u)"
    using py_int_plain [of u ip] p by simp
  moreover have "(\<forall>m. parsed ip req \<noteq> Inr m) \<longrightarrow> fst (get ip req w) = None"
  proof
    assume "\<forall>m. parsed ip req \<noteq> Inr m"
    then obtain e where "parsed ip req = Inl e"
      by (cases "parsed ip req") auto
    then show "fst (get ip req w) = None" by (simp add: get_invalid)
  qed
  ultimately show ?thesis by blast
qed

theorem parse_step_grammar_witness:
  "args_get (args \<lparr>args = [(pystr_of ''num'', pystr_of ''-42'')]\<rparr>) (pystr_of ''num'')
     = Some (pystr_of ''-42'')
   \<and> plain_literal (pystr_of ''-42'')
   \<and> \<not> exceeds_limit (max_str_digits python311) (length (filter ascii_digit (pystr_of ''-42'')))
   \<and> parsed python311 \<lparr>args = [(pystr_of ''num'', pystr_of ''-42'')]\<rparr> = Inr (- 42)
   \<and> args_get (args \<lparr>args = [(pystr_of ''num'', [0x2003, 0x661, 95, 0x662])]\<rparr>) (pystr_of ''num'')
     = Some ([0x2003] @ [] @ [0x661, 95, 0x662] @ [])
   \<and> parsed python311 \<lparr>args = [(pystr_of ''num'', [0x2003, 0x661, 95, 0x662])]\<rparr> = Inr 12
   \<and> args_get (args \<lparr>args = [(pystr_of ''num'', pystr_of ''4x'')]\<rparr>) (pystr_of ''num'')
     = Some (pystr_of ''4x'')
   \<and> fst (get python311 \<lparr>args = [(pystr_of ''num'', pystr_of ''4x'')]\<rparr> \<lparr>rng = (\<lambda>i. 7), pos = 0, trace = []\<rparr>) = None"
proof -
  let ?w = "\<lparr>rng = (\<lambda>i. 7), pos = 0, trace = []\<rparr>"
  let ?r1 = "\<lparr>args = [(pystr_of ''num'', pystr_of ''-42'')]\<rparr>"
  let ?r2 = "\<lparr>args = [(pystr_of ''num'', pystr_of ''4x'')]\<rparr>"
  let ?r3 = "\<lparr>args = [(pystr_of ''num'', [0x2003, 0x661, 95, 0x662])]\<rparr>"
  have a1: "args_get (args ?r1) (pystr_of ''num'') = Some (pystr_of ''-42'')"
    by (simp add: args_get_def)
  have pl: "plain_literal (pystr_of ''-42'')"
    by (simp add: plain_literal_def pystr_of_def ascii_digit_def)
  have lm: "\<not> exceeds_limit (max_str_digits python311) (length (filter ascii_digit (pystr_of ''-42'')))"
    by (simp add: exceeds_limit_def pystr_of_def ascii_digit_def)
  have v: "plain_value (pystr_of ''-42'') = - 42"
    by (simp add: plain_value_def pystr_of_def)
  from parse_step_grammar [OF a1, where ip = python311 and w = ?w] pl lm v
  have p1: "parsed python311 ?r1 = Inr (- 42)"
    by simp
  have a3: "args_get (args ?r3) (pystr_of ''num'') = Some ([0x2003] @ [] @ [0x661, 95, 0x662] @ [])"
    by (simp add: args_get_def)
  have sp: "list_all (cp_space python311) [0x2003]"
    by (simp add: cp_space_def uni_isspace_def python311_def)
  have d1: "cp_digit python311 0x661 = Some 1"
    by (simp add: cp_digit_def uni_isspace_def uni_todecimal_def python311_def)
  have d2: "cp_digit python311 0x662 = Some 2"
    by (simp add: cp_digit_def uni_isspace_def uni_todecimal_def python311_def)
  have run: "cp_run python311 True [0x661, 95, 0x662]"
    by (simp add: d1 d2)
  have d0: "cp_digit python311 95 = None"
    by (simp add: cp_digit_def)
  have vals: "cp_values python311 [0x661, 95, 0x662] = [1, 2]"
    by (simp add: cp_values_def map_filter_simps d0 d1 d2)
  have "\<exists>l sg b t. [0x2003] @ [] @ [0x661, 95, 0x662] @ [] = l @ sg @ b @ t
          \<and> list_all (cp_space python311) l
          \<and> (sg = [] \<or> sg = pystr_of ''+'' \<or> sg = pystr_of ''-'')
          \<and> cp_run python311 True b \<and> list_all (cp_space python311) t
          \<and> \<not> exceeds_limit (max_str_digits python311) (length (cp_values python311 b))
          \<and> (12::int) = (if sg = pystr_of ''-'' then - 1 else 1) * int (positional (cp_values python311 b))"
    using sp run vals
    by (intro exI [of _ "[0x2003]"] exI [of _ "[]"] exI [of _ "[0x661, 95, 0x662]"])
       (simp add: exceeds_limit_def pystr_of_signs)
  with parse_step_grammar [OF a3, where ip = python311 and w = ?w and n = 12]
  have p3: "parsed python311 ?r3 = Inr 12"
    by blast
  have a2: "args_get (args ?r2) (pystr_of ''num'') = Some (pystr_of ''4x'')"
    by (simp add: args_get_def)
  have "parsed python311 ?r2 = Inl (ValueError_invalid_literal (pystr_of ''4x''))"
    by (simp add: args_get_def py_int_def to_ascii_pystr_of long_from_string_def read_sign_def
        py_isspace_def is_digit_def digit_val_def exceeds_limit_def)
  then have "\<forall>m. parsed python311 ?r2 \<noteq> Inr m"
    by simp
  with parse_step_grammar [OF a2, where ip = python311 and w = ?w] have g: "fst (get python311 ?r2 ?w) = None"
    by blast
  from a1 pl lm p1 a3 p3 a2 g show ?thesis by (intro conjI)
qed

text \<open>
  Strings outside the grammar of a sign and digits do parse: leading whitespace, an
  underscore between digits, and decimal digits other than 0 to 9 are accepted.
\<close>

theorem space_and_underscore_counterexample:
  "\<not> plain_literal (pystr_of '' 5'')
   \<and> parsed python311 \<lparr>args = [(pystr_of ''num'', pystr_of '' 5'')]\<rparr> = Inr 5
   \<and> \<not> plain_literal (pystr_of ''1_0'')
   \<and> parsed python311 \<lparr>args = [(pystr_of ''num'', pystr_of ''1_0'')]\<rparr> = Inr 10
   \<and> \<not> plain_literal [0x661, 0x662]
   \<and> parsed python311 \<lparr>args = [(pystr_of ''num'', [0x661, 0x662])]\<rparr> = Inr 12"
proof -
  have a: "\<not> plain_literal (pystr_of '' 5'')" "\<not> plain_literal (pystr_of ''1_0'')"
    "\<not> plain_literal [0x661, 0x662]"
    by (simp_all add: plain_literal_def pystr_of_def ascii_digit_def)
  have b: "parsed python311 \<lparr>args = [(pystr_of ''num'', pystr_of '' 5'')]\<rparr> = Inr 5"
    "parsed python311 \<lparr>args = [(pystr_of ''num'', pystr_of ''1_0'')]\<rparr> = Inr 10"
    by (simp_all add: args_get_def py_int_def to_ascii_pystr_of long_from_string_def read_sign_def
        py_isspace_def is_digit_def digit_val_def exceeds_limit_def)
  have d: "cp_digit python311 0x661 = Some 1" "cp_digit python311 0x662 = Some 2"
    by (simp_all add: cp_digit_def uni_isspace_def uni_todecimal_def python311_def)
  then have "cp_run python311 True [0x661, 0x662]"
    and "cp_values python311 [0x661, 0x662] = [1, 2]"
    by (simp_all add: cp_values_def map_filter_simps)
  with py_int_literal [of python311 "[]" "[]" "[0x661, 0x662]" "[]"]
  have "py_int python311 (Some [0x661, 0x662]) = Inr 12"
    by (simp add: exceeds_limit_def)
  then have c: "parsed python311 \<lparr>args = [(pystr_of ''num'', [0x661, 0x662])]\<rparr> = Inr 12"
    by (simp add: args_get_def)
  from a b c show ?thesis by (intro conjI)
qed

text \<open>
  Claim C9. Two runs of the handler on requests with the same \<open>num\<close> and with the same
  values drawn return the same response, and perform the same effects, whatever else
  differs between the two requests and the two worlds.
\<close>

theorem response_determined:
  assumes "args_get (args req1) (pystr_of ''num'') = args_get (args req2) (pystr_of ''num'')"
      and "draws (new_events w1 (snd (get ip req1 w1))) = draws (new_events w2 (snd (get ip req2 w2)))"
  shows "fst (get ip req1 w1) = fst (get ip req2 w2) \<and>
         new_events w1 (snd (get ip req1 w1)) = new_events w2 (snd (get ip req2 w2))"
proof (cases "parsed ip req1")
  case (Inl e)
  then have "parsed ip req2 = Inl e" using assms(1) by simp
  with Inl show ?thesis by (simp add: get_invalid new_events_print0)
next
  case (Inr n)
  then have p2: "parsed ip req2 = Inr n" using assms(1) by simp
  have d: "int (rng w1 (pos w1) mod 151) = int (rng w2 (pos w2) mod 151) \<and>
           int (rng w1 (Suc (pos w1)) mod 11) = int (rng w2 (Suc (pos w2)) mod 11)"
    using assms(2) unfolding get_valid_events [OF Inr] get_valid_events [OF p2]
    by (simp split: option.splits)
  then have r: "fst (get ip req1 w1) = fst (get ip req2 w2)"
    unfolding get_valid_response [OF Inr] get_valid_response [OF p2]
    by simp
  with d show ?thesis
    unfolding get_valid_events [OF Inr] get_valid_events [OF p2]
    by (simp split: option.splits)
qed

theorem response_determined_witness:
  "args_get (args \<lparr>args = [(pystr_of ''num'', pystr_of ''-3'')]\<rparr>) (pystr_of ''num'')
     = args_get (args \<lparr>args = [(pystr_of ''num'', pystr_of ''-3''), (pystr_of ''num'', pystr_of ''8'')]\<rparr>) (pystr_of ''num'')
   \<and> draws (new_events \<lparr>rng = (\<lambda>i. 7), pos = 0, trace = []\<rparr>
        (snd (get python311 \<lparr>args = [(pystr_of ''num'', pystr_of ''-3'')]\<rparr>
           \<lparr>rng = (\<lambda>i. 7), pos = 0, trace = []\<rparr>))) = [57, 7]
   \<and> draws (new_events \<lparr>rng = (\<lambda>i. 1668), pos = 5, trace = [EvSleep 1]\<rparr>
        (snd (get python311 \<lparr>args = [(pystr_of ''num'', pystr_of ''-3''), (pystr_of ''num'', pystr_of ''8'')]\<rparr>
           \<lparr>rng = (\<lambda>i. 1668), pos = 5, trace = [EvSleep 1]\<rparr>))) = [57, 7]
   \<and> fst (get python311 \<lparr>args = [(pystr_of ''num'', pystr_of ''-3'')]\<rparr>
          \<lparr>rng = (\<lambda>i. 7), pos = 0, trace = []\<rparr>)
     = fst (get python311 \<lparr>args = [(pystr_of ''num'', pystr_of ''-3''), (pystr_of ''num'', pystr_of ''8'')]\<rparr>
          \<lparr>rng = (\<lambda>i. 1668), pos = 5, trace = [EvSleep 1]\<rparr>)"
proof -
  let ?r1 = "\<lparr>args = [(pystr_of ''num'', pystr_of ''-3'')]\<rparr>"
  let ?r2 = "\<lparr>args = [(pystr_of ''num'', pystr_of ''-3''), (pystr_of ''num'', pystr_of ''8'')]\<rparr>"
  let ?w1 = "\<lparr>rng = (\<lambda>i. 7), pos = 0, trace = []\<rparr>"
  let ?w2 = "\<lparr>rng = (\<lambda>i. 1668), pos = 5, trace = [EvSleep 1]\<rparr>"
  have a: "args_get (args ?r1) (pystr_of ''num'') = args_get (args ?r2) (pystr_of ''num'')"
    by (simp add: args_get_def)
  have p1: "parsed python311 ?r1 = Inr (- 3)"
    by (rule parsed_minus_three)
  have p2: "parsed python311 ?r2 = Inr (- 3)"
    using p1 a by simp
  have d1: "draws (new_events ?w1 (snd (get python311 ?r1 ?w1))) = [57, 7]"
    unfolding get_valid_events [OF p1] by (simp split: option.splits)
  have d2: "draws (new_events ?w2 (snd (get python311 ?r2 ?w2))) = [57, 7]"
    unfolding get_valid_events [OF p2] by (simp split: option.splits)
  from response_determined [OF a, where ip = python311 and ?w1.0 = ?w1 and ?w2.0 = ?w2] d1 d2 a
  show ?thesis by simp
qed

text \<open>
  Claim C10. In a response that is not the error payload, \<open>ttl(ms)\<close> lies in the closed
  interval from 200 to 350: it is \<open>100 + 50 + r\<close> with \<open>r\<close> between 50 and 200.
\<close>

theorem ttl_between_200_and_350:
  assumes "parsed ip req = Inr n"
      and "fst (get ip req w) = Some resp"
      and "body resp \<noteq> [(''error'', JStr ''something went wrong'')]"
  shows "\<exists>t. map_of (body resp) ''ttl(ms)'' = Some (JInt t) \<and> 200 \<le> t \<and> t \<le> 350"
proof -
  let ?t = "TTL + (50 + (50 + int (rng w (pos w) mod 151)))"
  have "map_of (body resp) ''ttl(ms)'' = Some (JInt ?t)"
    using assms(2,3) unfolding get_valid_response [OF assms(1)]
    by (auto split: if_splits)
  moreover have "200 \<le> ?t \<and> ?t \<le> 350"
    using mod_151_bounds [of "rng w (pos w)"] by (simp add: TTL_def)
  ultimately show ?thesis by blast
qed

theorem ttl_between_200_and_350_witness:
  "parsed python311 \<lparr>args = [(pystr_of ''x'', pystr_of ''1''), (pystr_of ''num'', pystr_of ''12''), (pystr_of ''num'', pystr_of ''13'')]\<rparr> = Inr 12
   \<and> fst (get python311 \<lparr>args = [(pystr_of ''x'', pystr_of ''1''), (pystr_of ''num'', pystr_of ''12''), (pystr_of ''num'', pystr_of ''13'')]\<rparr>
           \<lparr>rng = (\<lambda>i. 3 * i + 1), pos = 4, trace = []\<rparr>)
       = Some \<lparr>status = 200, mimetype = ''application/json'',
                body = [(''msg'', JInt 144), (''ttl(ms)'', JInt 213)]\<rparr>
   \<and> (\<exists>t. map_of [(''msg'', JInt 144), (''ttl(ms)'', JInt 213)] ''ttl(ms)'' = Some (JInt t)
          \<and> 200 \<le> t \<and> t \<le> 350)"
proof -
  let ?req = "\<lparr>args = [(pystr_of ''x'', pystr_of ''1''), (pystr_of ''num'', pystr_of ''12''), (pystr_of ''num'', pystr_of ''13'')]\<rparr>"
  let ?w = "\<lparr>rng = (\<lambda>i. 3 * i + 1), pos = 4, trace = []\<rparr>"
  let ?resp = "\<lparr>status = 200, mimetype = ''application/json'',
                body = [(''msg'', JInt 144), (''ttl(ms)'', JInt 213)]\<rparr>"
  have p: "parsed python311 ?req = Inr 12"
    by (rule parsed_twelve)
  have g: "fst (get python311 ?req ?w) = Some ?resp"
    unfolding get_valid_response [OF p] by (simp add: TTL_def exceeds_limit_def ndigits.simps)
  have b: "body ?resp \<noteq> [(''error'', JStr ''something went wrong'')]"
    by simp
  from ttl_between_200_and_350 [OF p g b] p g show ?thesis by simp
qed

end
